theory Spec2Isabelle
  imports Main "HOL-Library.AList"
begin

section \<open>HeaderHawk: URL normalisation, header fetching and the batch loop\<close>

text \<open>
  A shallow embedding of \<^verbatim>\<open>src/headerhawk.py\<close>: \<^verbatim>\<open>validate_and_format_url\<close>,
  \<^verbatim>\<open>get_headers\<close>, \<^verbatim>\<open>truncate_value\<close> and \<^verbatim>\<open>process_urls\<close>.

  Conventions of the model.
  \<^item> A Python \<^verbatim>\<open>str\<close> is a \<open>string\<close>; one \<open>char\<close> stands for one code point below 256
    (the Latin-1 range in which HTTP header bytes are decoded), and \<open>length\<close> is \<^verbatim>\<open>len\<close>.
  \<^item> A \<^verbatim>\<open>dict\<close> is an association list with distinct keys in insertion order;
    \<open>AList.update\<close> is \<^verbatim>\<open>d[k] = v\<close> and \<open>map_of\<close> is the lookup.
  \<^item> Exceptions are values of \<open>exn\<close>; a call that may raise returns \<open>exn + 'a\<close>.
  \<^item> Everything the program does to the outside is an \<open>event\<close> appended to a trace:
    a \<^verbatim>\<open>console.print\<close> that returned, a \<^verbatim>\<open>time.sleep\<close>, a \<^verbatim>\<open>requests.get\<close>.
    \<^verbatim>\<open>time.sleep\<close> with the constant delay is taken to return.
  \<^item> The three libraries that decide outcomes are parameters. \<open>valid\<close> is
    \<^verbatim>\<open>validators.url\<close> read as a truth value. \<open>net\<close> is the network behind
    \<^verbatim>\<open>requests.get\<close>: its answer may depend on the whole trace so far, on the URL and on
    the \<^verbatim>\<open>verify\<close> flag, and is either the response's header items or a raised exception.
    \<open>con\<close> is the rich console behind \<^verbatim>\<open>console.print\<close>: for a text it either prints
    (\<open>None\<close>) or raises (\<open>Some e\<close>), as rich does with \<^verbatim>\<open>MarkupError\<close> on a text whose markup
    has a closing tag without an open one. Every printed text but the rate-limit message
    interpolates the URL, so the raising path is reachable from the input.
\<close>

subsection \<open>Constants\<close>

definition HEADERS_TO_CHECK :: "string list" where
  "HEADERS_TO_CHECK =
     [''content-security-policy'', ''x-frame-options'',
      ''strict-transport-security'', ''referrer-policy'']"

definition MAX_HEADER_LENGTH :: nat where
  "MAX_HEADER_LENGTH = 80"

definition RATE_LIMIT_DELAY :: nat where
  "RATE_LIMIT_DELAY = 2"

subsection \<open>Python values, exceptions, events\<close>

text \<open>
  A dictionary value as \<^verbatim>\<open>isinstance(value, str)\<close> sees it: a string or something else.
\<close>

datatype pyval = PyStr string | PyOther

text \<open>
  The exceptions the core meets, each with its \<^verbatim>\<open>str(e)\<close>: the \<^verbatim>\<open>ValueError\<close> of the
  normaliser, \<^verbatim>\<open>requests.exceptions.SSLError\<close>, the \<^verbatim>\<open>MarkupError\<close> of the console, and any
  other \<^verbatim>\<open>Exception\<close>. The class \<^verbatim>\<open>SSLError\<close> covers every failure of the TLS layer; its
  cause says whether the certificate could not be verified or something else went wrong
  (a handshake or protocol failure). The program never looks at the cause.
\<close>

datatype ssl_cause = CertificateVerifyFailed | OtherSSLFailure

datatype exn =
  ValueError string | SSLError ssl_cause string | MarkupError string | OtherException string

fun str_exn :: "exn \<Rightarrow> string" where
  "str_exn (ValueError m) = m"
| "str_exn (SSLError c m) = m"
| "str_exn (MarkupError m) = m"
| "str_exn (OtherException m) = m"

datatype event = Print string | Sleep nat | Request string bool

type_synonym trace = "event list"
type_synonym headers = "(string \<times> pyval) list"
type_synonym record_row = "(string \<times> string) list"
type_synonym network = "trace \<Rightarrow> string \<Rightarrow> bool \<Rightarrow> exn + (string \<times> string) list"
type_synonym console = "string \<Rightarrow> exn option"

text \<open>
  \<^verbatim>\<open>console.print(s)\<close>: the text is printed and recorded, or the call raises and nothing
  is recorded.
\<close>

definition console_print :: "console \<Rightarrow> string \<Rightarrow> trace \<Rightarrow> exn + trace" where
  "console_print con s w = (case con s of None \<Rightarrow> Inr (w @ [Print s]) | Some e \<Rightarrow> Inl e)"

definition time_sleep :: "nat \<Rightarrow> trace \<Rightarrow> trace" where
  "time_sleep n w = w @ [Sleep n]"

text \<open>\<^verbatim>\<open>requests.get(url, verify=...)\<close>: the request is recorded, then the network answers.\<close>

definition requests_get ::
  "network \<Rightarrow> string \<Rightarrow> bool \<Rightarrow> trace \<Rightarrow> (exn + (string \<times> string) list) \<times> trace" where
  "requests_get net url verify w = (net w url verify, w @ [Request url verify])"

subsection \<open>String helpers\<close>

text \<open>\<^verbatim>\<open>s.startswith(p)\<close>.\<close>

definition startswith :: "string \<Rightarrow> string \<Rightarrow> bool" where
  "startswith s p = (take (length p) s = p)"

text \<open>
  \<^verbatim>\<open>str.lower\<close> on code points below 256: the upper-case letters are \<open>A\<close> to \<open>Z\<close>
  (65 to 90) and the Latin-1 capitals 192 to 222 without the multiplication sign 215; each
  has its lower-case letter 32 above, which is the same code point with bit 5 set.
\<close>

definition lower_char :: "char \<Rightarrow> char" where
  "lower_char c =
     (let n = (of_char c :: nat)
      in if (65 \<le> n \<and> n \<le> 90) \<or> (192 \<le> n \<and> n \<le> 222 \<and> n \<noteq> 215)
         then (case c of Char b0 b1 b2 b3 b4 b5 b6 b7 \<Rightarrow> Char b0 b1 b2 b3 b4 True b6 b7)
         else c)"

definition lower :: "string \<Rightarrow> string" where
  "lower s = map lower_char s"

text \<open>The decimal rendering of a non-negative integer inside an f-string.\<close>

fun str_nat :: "nat \<Rightarrow> string" where
  "str_nat n =
     (if n < 10 then [''0123456789'' ! n]
      else str_nat (n div 10) @ [''0123456789'' ! (n mod 10)])"

declare str_nat.simps [simp del]

subsection \<open>\<^verbatim>\<open>truncate_value\<close>\<close>

definition truncate_value :: "string \<Rightarrow> string" where
  "truncate_value v =
     (if length v > MAX_HEADER_LENGTH then take MAX_HEADER_LENGTH v @ ''...'' else v)"

subsection \<open>\<^verbatim>\<open>validate_and_format_url\<close>\<close>

definition validate_and_format_url :: "(string \<Rightarrow> bool) \<Rightarrow> string \<Rightarrow> exn + string" where
  "validate_and_format_url valid url =
     (let url' = (if \<not> (startswith url ''http://'' \<or> startswith url ''https://'')
                  then ''https://'' @ url else url)
      in if \<not> valid url' then Inl (ValueError (''Invalid URL format: '' @ url'))
         else Inr url')"

subsection \<open>\<^verbatim>\<open>get_headers\<close>\<close>

text \<open>\<^verbatim>\<open>{k.lower(): v for k, v in response.headers.items()}\<close>\<close>

definition lowered_headers :: "(string \<times> string) list \<Rightarrow> headers" where
  "lowered_headers items = foldl (\<lambda>d (k, v). AList.update (lower k) (PyStr v) d) [] items"

text \<open>\<^verbatim>\<open>{header: f"Error: {str(e)}" for header in HEADERS_TO_CHECK}\<close>\<close>

definition error_headers :: "exn \<Rightarrow> headers" where
  "error_headers e =
     foldl (\<lambda>d header. AList.update header (PyStr (''Error: '' @ str_exn e)) d) []
       HEADERS_TO_CHECK"

definition ssl_warning :: "string \<Rightarrow> string" where
  "ssl_warning url = ''[yellow]Warning: SSL verification failed for '' @ url @ ''[/yellow]''"

text \<open>
  The warning is printed in the body of \<^verbatim>\<open>except requests.exceptions.SSLError\<close>, outside
  the inner \<^verbatim>\<open>try\<close>; the clause \<^verbatim>\<open>except Exception\<close> of the same statement does not guard
  it, so an exception of that print leaves the function.
\<close>

definition get_headers ::
  "console \<Rightarrow> network \<Rightarrow> string \<Rightarrow> trace \<Rightarrow> (exn + headers) \<times> trace" where
  "get_headers con net url w =
     (case requests_get net url True w of
        (Inr items, w1) \<Rightarrow> (Inr (lowered_headers items), w1)
      | (Inl (SSLError c m), w1) \<Rightarrow>
          (case console_print con (ssl_warning url) w1 of
             Inl e \<Rightarrow> (Inl e, w1)
           | Inr w2 \<Rightarrow>
               (case requests_get net url False w2 of
                  (Inr items, w3) \<Rightarrow> (Inr (lowered_headers items), w3)
                | (Inl e, w3) \<Rightarrow> (Inr (error_headers e), w3)))
      | (Inl e, w1) \<Rightarrow> (Inr (error_headers e), w1))"

subsection \<open>\<^verbatim>\<open>process_urls\<close>\<close>

definition progress_msg :: "string \<Rightarrow> nat \<Rightarrow> nat \<Rightarrow> string" where
  "progress_msg url index total_urls =
     ''[cyan]Processing '' @ url @ '' ('' @ str_nat index @ ''/'' @ str_nat total_urls
       @ '')[/cyan]''"

definition rate_msg :: string where
  "rate_msg =
     ''[yellow]Rate limiting: waiting '' @ str_nat RATE_LIMIT_DELAY @ '' seconds...[/yellow]''"

definition error_msg :: "string \<Rightarrow> exn \<Rightarrow> string" where
  "error_msg url e = ''[red]Error processing '' @ url @ '': '' @ str_exn e @ ''[/red]''"

text \<open>\<^verbatim>\<open>headers.get(header, "Missing")\<close>\<close>

definition dict_get :: "headers \<Rightarrow> string \<Rightarrow> pyval \<Rightarrow> pyval" where
  "dict_get d k dflt = (case map_of d k of None \<Rightarrow> dflt | Some v \<Rightarrow> v)"

text \<open>The body of the inner \<^verbatim>\<open>for header in HEADERS_TO_CHECK\<close> loop.\<close>

definition record_header :: "headers \<Rightarrow> record_row \<Rightarrow> string \<Rightarrow> record_row" where
  "record_header hs result header =
     (case dict_get hs header (PyStr ''Missing'') of
        PyStr s \<Rightarrow> AList.update header (truncate_value s) result
      | PyOther \<Rightarrow> AList.update header ''Missing'' result)"

definition build_result :: "string \<Rightarrow> headers \<Rightarrow> record_row" where
  "build_result url hs = foldl (record_header hs) [(''URL'', url)] HEADERS_TO_CHECK"

text \<open>
  The handler \<^verbatim>\<open>except Exception as e\<close> of the loop body: it prints the variable
  \<^verbatim>\<open>url\<close> and the exception. Nothing guards this print, so an exception of it ends
  \<^verbatim>\<open>process_urls\<close>. The result of a pass is the exception that leaves the loop, if any,
  the list \<^verbatim>\<open>results\<close> and the trace.
\<close>

definition except_handler ::
  "console \<Rightarrow> string \<Rightarrow> exn \<Rightarrow> record_row list \<Rightarrow> trace
     \<Rightarrow> exn option \<times> record_row list \<times> trace" where
  "except_handler con url e results w =
     (case console_print con (error_msg url e) w of
        Inl e' \<Rightarrow> (Some e', results, w)
      | Inr w' \<Rightarrow> (None, results, w'))"

text \<open>
  One pass through the body of the outer loop. The variable \<^verbatim>\<open>url\<close> is the raw input
  until the first assignment has succeeded and the normalised URL afterwards. The record is
  appended before the rate-limit message is printed.
\<close>

definition process_one ::
  "console \<Rightarrow> (string \<Rightarrow> bool) \<Rightarrow> network \<Rightarrow> nat \<Rightarrow> nat \<Rightarrow> string
     \<Rightarrow> record_row list \<Rightarrow> trace \<Rightarrow> exn option \<times> record_row list \<times> trace" where
  "process_one con valid net total_urls index url results w =
     (case validate_and_format_url valid url of
        Inl e \<Rightarrow> except_handler con url e results w
      | Inr url' \<Rightarrow>
          (case console_print con (progress_msg url' index total_urls) w of
             Inl e \<Rightarrow> except_handler con url' e results w
           | Inr w1 \<Rightarrow>
               (case get_headers con net url' w1 of
                  (Inl e, w2) \<Rightarrow> except_handler con url' e results w2
                | (Inr hs, w2) \<Rightarrow>
                    (let result = build_result url' hs;
                         results' = results @ [result]
                     in if index < total_urls
                        then (case console_print con rate_msg w2 of
                                Inl e \<Rightarrow> except_handler con url' e results' w2
                              | Inr w3 \<Rightarrow> (None, results', time_sleep RATE_LIMIT_DELAY w3))
                        else (None, results', w2)))))"

text \<open>
  \<^verbatim>\<open>for index, url in enumerate(urls, 1)\<close>, from a given index on; an exception that
  leaves a pass ends the loop.
\<close>

fun process_loop ::
  "console \<Rightarrow> (string \<Rightarrow> bool) \<Rightarrow> network \<Rightarrow> nat \<Rightarrow> nat \<Rightarrow> string list
     \<Rightarrow> record_row list \<Rightarrow> trace \<Rightarrow> exn option \<times> record_row list \<times> trace" where
  "process_loop con valid net total_urls index [] results w = (None, results, w)"
| "process_loop con valid net total_urls index (url # urls) results w =
     (case process_one con valid net total_urls index url results w of
        (Some e, results', w') \<Rightarrow> (Some e, results', w')
      | (None, results', w') \<Rightarrow>
          process_loop con valid net total_urls (Suc index) urls results' w')"

text \<open>\<^verbatim>\<open>process_urls\<close> returns the list of records, or raises.\<close>

definition process_urls ::
  "console \<Rightarrow> (string \<Rightarrow> bool) \<Rightarrow> network \<Rightarrow> string list \<Rightarrow> trace
     \<Rightarrow> (exn + record_row list) \<times> trace" where
  "process_urls con valid net urls w =
     (case process_loop con valid net (length urls) 1 urls [] w of
        (Some e, results, w') \<Rightarrow> (Inl e, w')
      | (None, results, w') \<Rightarrow> (Inr results, w'))"

subsection \<open>Auxiliary notions for stating the properties\<close>

text \<open>
  What the inner loop records for one tracked header: the looked-up value, truncated when
  it is a string, and \<open>Missing\<close> otherwise.
\<close>

definition recorded_value :: "headers \<Rightarrow> string \<Rightarrow> string" where
  "recorded_value hs h =
     (case dict_get hs h (PyStr ''Missing'') of
        PyStr s \<Rightarrow> truncate_value s
      | PyOther \<Rightarrow> ''Missing'')"

text \<open>
  A fetch that starts at trace \<open>w\<close> succeeds with \<open>items\<close> when the verified request
  answers with them, or when it raises \<open>SSLError\<close>, the warning is printed and the
  unverified request answers with them. The unverified request is asked after the verified
  request and the warning have been recorded.
\<close>

definition fetch_succeeds ::
  "console \<Rightarrow> network \<Rightarrow> string \<Rightarrow> trace \<Rightarrow> (string \<times> string) list \<Rightarrow> bool" where
  "fetch_succeeds con net url w items =
     (case net w url True of
        Inr its \<Rightarrow> its = items
      | Inl (SSLError c m) \<Rightarrow>
          con (ssl_warning url) = None
          \<and> net (w @ [Request url True, Print (ssl_warning url)]) url False = Inr items
      | Inl _ \<Rightarrow> False)"

text \<open>
  Sample environments for the concrete instances below. \<open>valid0\<close> accepts the strings
  without a blank. \<open>console_ok\<close> prints every text. \<open>console_rich\<close> does what rich does with
  the tag \<open>[/x]\<close>, which closes a style that no tag of the program's messages opens: it
  raises \<^verbatim>\<open>MarkupError\<close> with the position of the first such tag, and prints a text without
  it.
\<close>

definition valid0 :: "string \<Rightarrow> bool" where
  "valid0 s = (CHR '' '' \<notin> set s)"

definition console_ok :: console where
  "console_ok s = None"

fun find_sub :: "string \<Rightarrow> string \<Rightarrow> nat \<Rightarrow> nat option" where
  "find_sub p [] i = (if p = [] then Some i else None)"
| "find_sub p (c # s) i =
     (if take (length p) (c # s) = p then Some i else find_sub p s (Suc i))"

definition console_rich :: console where
  "console_rich s =
     (case find_sub ''[/x]'' s 0 of
        None \<Rightarrow> None
      | Some i \<Rightarrow>
          Some (MarkupError (''closing tag '[/x]' at position '' @ str_nat i
                  @ '' doesn't match any open tag'')))"

definition net_refuse :: network where
  "net_refuse w url verify = Inl (OtherException ''Connection refused'')"

definition net_selfsigned :: network where
  "net_selfsigned w url verify =
     (if verify then Inl (SSLError CertificateVerifyFailed ''certificate verify failed'')
      else Inr [(''X-Frame-Options'', ''DENY'')])"

definition net_wrong_version :: network where
  "net_wrong_version w url verify =
     Inl (SSLError OtherSSLFailure ''[SSL: WRONG_VERSION_NUMBER] wrong version number'')"

definition net_example :: network where
  "net_example w url verify =
     Inr [(''Content-Type'', ''text/html''),
          (''Strict-Transport-Security'', ''max-age=63072000'')]"

definition net_mixed :: network where
  "net_mixed w url verify =
     (if url = ''https://self-signed.example'' then net_selfsigned w url verify
      else if url = ''https://down.example'' then net_refuse w url verify
      else net_example w url verify)"

definition net_long :: network where
  "net_long w url verify = Inr [(''Content-Security-Policy'', replicate 100 CHR ''a'')]"

text \<open>
  The normalised URLs of a batch, in input order: one for each raw URL that
  \<open>validate_and_format_url\<close> accepts, none for one it rejects.
\<close>

definition normalized :: "(string \<Rightarrow> bool) \<Rightarrow> string list \<Rightarrow> string list" where
  "normalized valid urls =
     concat (map (\<lambda>u. case validate_and_format_url valid u of
                          Inl e \<Rightarrow> [] | Inr n \<Rightarrow> [n]) urls)"

text \<open>The \<open>URL\<close> field of a record.\<close>

definition url_of :: "record_row \<Rightarrow> string option" where
  "url_of r = map_of r ''URL''"

text \<open>
  Views of a trace for the pacing property: the pauses, and the pauses together with the
  verified request that opens each fetch. \<open>intersperse\<close> puts a separator between
  neighbours of a list, never before the first or after the last element.
\<close>

fun is_sleep :: "event \<Rightarrow> bool" where
  "is_sleep (Sleep n) = True"
| "is_sleep (Print s) = False"
| "is_sleep (Request u v) = False"

fun is_pace :: "event \<Rightarrow> bool" where
  "is_pace (Sleep n) = True"
| "is_pace (Print s) = False"
| "is_pace (Request u v) = v"

fun intersperse :: "'a \<Rightarrow> 'a list \<Rightarrow> 'a list" where
  "intersperse sep [] = []"
| "intersperse sep [x] = [x]"
| "intersperse sep (x # y # xs) = x # sep # intersperse sep (y # xs)"

section \<open>Properties\<close>

subsection \<open>Dictionaries built by the program\<close>

text \<open>Setting bit 5 in \<open>lower_char\<close> is adding 32, checked on all 256 code points.\<close>

lemma lower_char_add32:
  "\<forall>c. lower_char c =
     (let n = (of_char c :: nat)
      in if (65 \<le> n \<and> n \<le> 90) \<or> (192 \<le> n \<and> n \<le> 222 \<and> n \<noteq> 215)
         then char_of (n + 32) else c)"
  by code_simp

lemma lower_tracked: "h \<in> set HEADERS_TO_CHECK \<Longrightarrow> lower h = h"
  by (auto simp add: HEADERS_TO_CHECK_def lower_def lower_char_def)

lemma build_result_explicit:
  "build_result url hs =
     [(''URL'', url),
      (''content-security-policy'', recorded_value hs ''content-security-policy''),
      (''x-frame-options'', recorded_value hs ''x-frame-options''),
      (''strict-transport-security'', recorded_value hs ''strict-transport-security''),
      (''referrer-policy'', recorded_value hs ''referrer-policy'')]"
  by (simp add: build_result_def HEADERS_TO_CHECK_def record_header_def recorded_value_def split: pyval.split)

lemma map_of_foldl_update:
  "map_of (foldl (\<lambda>d (k, v). AList.update (f k) (g v) d) d0 items) =
     map_of (rev (map (\<lambda>(k, v). (f k, g v)) items) @ d0)"
proof (induction items arbitrary: d0)
  case Nil
  show ?case by simp
next
  case (Cons a items)
  obtain k v where a: "a = (k, v)" by (cases a)
  show ?case
    by (simp add: a Cons.IH update_conv' map_add_def fun_eq_iff split: option.splits)
qed

lemma map_of_lowered_headers:
  "map_of (lowered_headers items) = map_of (rev (map (\<lambda>(k, v). (lower k, PyStr v)) items))"
  using map_of_foldl_update [of lower PyStr "[]" items]
  by (simp add: lowered_headers_def)

lemma keys_foldl_update:
  "fst ` set (foldl (\<lambda>d (k, v). AList.update (f k) (g v) d) d0 items) =
     fst ` set d0 \<union> f ` fst ` set items"
proof (induction items arbitrary: d0)
  case Nil
  show ?case by simp
next
  case (Cons a items)
  obtain k v where a: "a = (k, v)" by (cases a)
  show ?case
    by (simp add: a Cons.IH AList.dom_update)
qed

lemma distinct_foldl_update:
  "distinct (map fst d0) \<Longrightarrow> distinct (map fst (foldl (\<lambda>d (k, v). AList.update (f k) (g v) d) d0 items))"
  by (induction items arbitrary: d0) (auto simp: AList.distinct_update split: prod.splits)

lemma error_headers_explicit:
  "error_headers e = map (\<lambda>h. (h, PyStr (''Error: '' @ str_exn e))) HEADERS_TO_CHECK"
  by (simp add: error_headers_def HEADERS_TO_CHECK_def)

lemma error_headers_lookup:
  "h \<in> set HEADERS_TO_CHECK \<Longrightarrow>
     map_of (error_headers e) h = Some (PyStr (''Error: '' @ str_exn e))"
  by (auto simp: error_headers_explicit HEADERS_TO_CHECK_def)

lemma keys_error_headers: "map fst (error_headers e) = HEADERS_TO_CHECK"
  by (simp add: error_headers_explicit comp_def)

lemma recorded_value_error_headers:
  "h \<in> set HEADERS_TO_CHECK \<Longrightarrow>
     recorded_value (error_headers e) h = truncate_value (''Error: '' @ str_exn e)"
  by (simp add: recorded_value_def dict_get_def error_headers_lookup)

lemma map_of_build_result:
  "h \<in> set HEADERS_TO_CHECK \<Longrightarrow> map_of (build_result url hs) h = Some (recorded_value hs h)"
  by (auto simp: build_result_explicit HEADERS_TO_CHECK_def)

lemma length_truncate_value: "length (truncate_value v) \<le> 83"
  by (simp add: truncate_value_def MAX_HEADER_LENGTH_def)

lemma truncate_value_nonempty: "v \<noteq> [] \<Longrightarrow> truncate_value v \<noteq> []"
  by (auto simp: truncate_value_def MAX_HEADER_LENGTH_def)

lemma keys_lowered_headers: "fst ` set (lowered_headers items) = lower ` fst ` set items"
  using keys_foldl_update [of lower PyStr "[]" items]
  by (simp add: lowered_headers_def)

lemma distinct_lowered_headers: "distinct (map fst (lowered_headers items))"
  using distinct_foldl_update [of "[]" lower PyStr items]
  by (simp add: lowered_headers_def)

lemma lookup_last_match:
  "map_of (rev (map (\<lambda>(k, v). (f k, g v)) items)) h =
     (case filter (\<lambda>(k, v). f k = h) items of
        [] \<Rightarrow> None
      | kvs \<Rightarrow> Some (g (snd (last kvs))))"
proof (induction items)
  case Nil
  show ?case by simp
next
  case (Cons a items)
  obtain k v where a: "a = (k, v)" by (cases a)
  show ?case
    by (simp add: a Cons.IH map_add_def split: option.splits list.splits)
qed

lemma recorded_value_lowered_headers:
  "recorded_value (lowered_headers items) h =
     (case filter (\<lambda>(k, v). lower k = h) items of
        [] \<Rightarrow> ''Missing''
      | kvs \<Rightarrow> truncate_value (snd (last kvs)))"
  by (simp add: recorded_value_def dict_get_def map_of_lowered_headers
      lookup_last_match [of lower PyStr] truncate_value_def MAX_HEADER_LENGTH_def
      split: list.splits)

lemma keys_build_result: "map fst (build_result url hs) = ''URL'' # HEADERS_TO_CHECK"
  by (simp add: build_result_explicit HEADERS_TO_CHECK_def)

subsection \<open>The fetcher\<close>

lemma get_headers_unfold:
  "get_headers con net url w =
     (case net w url True of
        Inr items \<Rightarrow> (Inr (lowered_headers items), w @ [Request url True])
      | Inl (SSLError c m) \<Rightarrow>
          (case con (ssl_warning url) of
             Some e \<Rightarrow> (Inl e, w @ [Request url True])
           | None \<Rightarrow>
               (case net (w @ [Request url True, Print (ssl_warning url)]) url False of
                  Inr items \<Rightarrow>
                    (Inr (lowered_headers items),
                     w @ [Request url True, Print (ssl_warning url), Request url False])
                | Inl e \<Rightarrow>
                    (Inr (error_headers e),
                     w @ [Request url True, Print (ssl_warning url), Request url False])))
      | Inl e \<Rightarrow> (Inr (error_headers e), w @ [Request url True]))"
  by (auto simp add: get_headers_def requests_get_def console_print_def
      split: sum.splits exn.splits option.splits)

lemma get_headers_success:
  "fetch_succeeds con net url w items \<Longrightarrow>
     fst (get_headers con net url w) = Inr (lowered_headers items)"
  by (auto simp: get_headers_unfold fetch_succeeds_def split: sum.splits exn.splits)

lemma get_headers_trace:
  "\<exists>E. snd (get_headers con net url w) = w @ Request url True # E"
  by (simp add: get_headers_unfold split: sum.splits exn.splits option.splits)

subsection \<open>One pass of the batch loop\<close>

lemma except_handler_results:
  "fst (snd (except_handler con url e results w)) = results"
  by (simp add: except_handler_def split: sum.splits)

lemma except_handler_cases:
  "except_handler con url e results w =
     (case con (error_msg url e) of
        None \<Rightarrow> (None, results, w @ [Print (error_msg url e)])
      | Some e' \<Rightarrow> (Some e', results, w))"
  by (simp add: except_handler_def console_print_def split: option.splits)

lemma process_one_invalid:
  "validate_and_format_url valid raw = Inl e \<Longrightarrow>
     process_one con valid net total_urls index raw results w =
       except_handler con raw e results w"
  by (simp add: process_one_def)

text \<open>The list of records after a pass: unchanged, or one record longer.\<close>

lemma process_one_results:
  "fst (snd (process_one con valid net total_urls index raw results w)) = results
   \<or> (\<exists>u hs. fst (snd (process_one con valid net total_urls index raw results w))
         = results @ [build_result u hs])"
  by (auto simp: process_one_def except_handler_results Let_def
      split: sum.splits prod.splits option.splits)

lemma process_one_success:
  assumes "validate_and_format_url valid raw = Inr url"
    and "con (progress_msg url index total_urls) = None"
    and "fetch_succeeds con net url (w @ [Print (progress_msg url index total_urls)]) items"
  shows "\<exists>out w'. process_one con valid net total_urls index raw results w
           = (out, results @ [build_result url (lowered_headers items)], w')"
proof -
  obtain w2 where g: "get_headers con net url (w @ [Print (progress_msg url index total_urls)])
      = (Inr (lowered_headers items), w2)"
    using get_headers_success [OF assms(3)]
    by (cases "get_headers con net url (w @ [Print (progress_msg url index total_urls)])") simp
  show ?thesis
    using assms(1,2) g
    by (simp add: process_one_def console_print_def except_handler_cases Let_def
        split: option.splits)
qed

subsection \<open>The batch loop\<close>

lemma process_loop_results:
  "\<forall>r\<in>set results. \<exists>u hs. r = build_result u hs \<Longrightarrow>
     \<forall>r\<in>set (fst (snd (process_loop con valid net total_urls index urls results w))).
        \<exists>u hs. r = build_result u hs"
proof (induction urls arbitrary: index results w)
  case Nil
  then show ?case by simp
next
  case (Cons url urls)
  obtain out results1 w1 where
    p: "process_one con valid net total_urls index url results w = (out, results1, w1)"
    by (cases "process_one con valid net total_urls index url results w")
  from process_one_results [of con valid net total_urls index url results w] p
  have "results1 = results \<or> (\<exists>u hs. results1 = results @ [build_result u hs])"
    by simp
  with Cons.prems have r1: "\<forall>r\<in>set results1. \<exists>u hs. r = build_result u hs"
    by auto blast
  show ?case
  proof (cases out)
    case None
    with p Cons.IH [OF r1, of "Suc index" w1] show ?thesis by simp
  next
    case (Some e)
    with p r1 show ?thesis by simp
  qed
qed

lemma process_urls_records:
  assumes "process_urls con valid net urls w = (Inr rs, w')"
  shows "\<forall>r\<in>set rs. \<exists>u hs. r = build_result u hs"
proof -
  obtain out results w1 where
    l: "process_loop con valid net (length urls) 1 urls [] w = (out, results, w1)"
    by (cases "process_loop con valid net (length urls) 1 urls [] w")
  with assms have "rs = results"
    by (cases out) (simp_all add: process_urls_def)
  moreover from process_loop_results [of "[]" con valid net "length urls" 1 urls w] l
  have "\<forall>r\<in>set results. \<exists>u hs. r = build_result u hs"
    by simp
  ultimately show ?thesis by simp
qed

lemma length_recorded_value: "length (recorded_value hs h) \<le> 83"
  by (simp add: recorded_value_def length_truncate_value split: pyval.splits)

lemma process_loop_append:
  "process_loop con valid net total_urls index (xs @ ys) results w =
     (case process_loop con valid net total_urls index xs results w of
        (Some e, results1, w1) \<Rightarrow> (Some e, results1, w1)
      | (None, results1, w1) \<Rightarrow>
          process_loop con valid net total_urls (index + length xs) ys results1 w1)"
  by (induction xs arbitrary: index results w) (auto split: prod.splits option.splits)

lemma process_loop_step:
  "process_loop con valid net total_urls 1 xs [] w = (None, results1, w1) \<Longrightarrow>
     process_loop con valid net total_urls 1 (xs @ u # ys) [] w =
       (case process_one con valid net total_urls (Suc (length xs)) u results1 w1 of
          (Some e, results2, w2) \<Rightarrow> (Some e, results2, w2)
        | (None, results2, w2) \<Rightarrow>
            process_loop con valid net total_urls (Suc (Suc (length xs))) ys results2 w2)"
  by (simp add: process_loop_append)

subsection \<open>The batch under a console that prints every text\<close>

lemma normalized_Nil: "normalized valid [] = []"
  by (simp add: normalized_def)

lemma normalized_Cons:
  "normalized valid (u # urls) =
     (case validate_and_format_url valid u of Inl e \<Rightarrow> [] | Inr n \<Rightarrow> [n]) @ normalized valid urls"
  by (simp add: normalized_def)

lemma url_of_build_result: "url_of (build_result url hs) = Some url"
  by (simp add: url_of_def build_result_explicit)

lemma get_headers_quiet:
  assumes "con (ssl_warning url) = None"
  shows "\<exists>hs E. get_headers con net url w = (Inr hs, w @ Request url True # E)
           \<and> filter is_pace E = []
           \<and> (\<forall>e. (case net w url True of
                       Inr its \<Rightarrow> False
                     | Inl (SSLError c m) \<Rightarrow>
                         net (w @ [Request url True, Print (ssl_warning url)]) url False = Inl e
                     | Inl e1 \<Rightarrow> e1 = e) \<longrightarrow> hs = error_headers e)"
  using assms
  by (auto simp: get_headers_unfold split: sum.splits exn.splits)

lemma process_one_quiet:
  assumes "\<forall>s. con s = None"
  shows "\<exists>new E. process_one con valid net total_urls index raw results w
                   = (None, results @ new, w @ E)
           \<and> map url_of new = map Some (normalized valid [raw])
           \<and> filter is_pace E =
               (case validate_and_format_url valid raw of
                  Inl e \<Rightarrow> []
                | Inr n \<Rightarrow> Request n True
                           # (if index < total_urls then [Sleep RATE_LIMIT_DELAY] else []))"
proof (cases "validate_and_format_url valid raw")
  case (Inl e)
  then show ?thesis
    using assms
    by (simp add: process_one_invalid except_handler_cases normalized_Cons normalized_Nil)
next
  case (Inr n)
  from assms have q: "con (ssl_warning n) = None" by simp
  from get_headers_quiet [where con = con and url = n and net = net
      and w = "w @ [Print (progress_msg n index total_urls)]", OF q]
  obtain hs E where g: "get_headers con net n (w @ [Print (progress_msg n index total_urls)])
      = (Inr hs, (w @ [Print (progress_msg n index total_urls)]) @ Request n True # E)"
    and E: "filter is_pace E = []"
    by blast
  have "process_one con valid net total_urls index raw results w =
      (None, results @ [build_result n hs],
       w @ (Print (progress_msg n index total_urls) # Request n True # E
            @ (if index < total_urls then [Print rate_msg, Sleep RATE_LIMIT_DELAY] else [])))"
    using Inr assms g
    by (simp add: process_one_def console_print_def time_sleep_def)
  moreover have "map url_of [build_result n hs] = map Some (normalized valid [raw])"
    using Inr by (simp add: normalized_Cons normalized_Nil url_of_build_result)
  moreover have "filter is_pace (Print (progress_msg n index total_urls) # Request n True # E
            @ (if index < total_urls then [Print rate_msg, Sleep RATE_LIMIT_DELAY] else []))
      = Request n True # (if index < total_urls then [Sleep RATE_LIMIT_DELAY] else [])"
    using E by simp
  ultimately show ?thesis
    using Inr by (metis sum.case(2))
qed

lemma intersperse_Cons:
  "intersperse sep (x # xs) = x # (if xs = [] then [] else sep # intersperse sep xs)"
  by (cases xs) simp_all

lemma process_loop_quiet:
  assumes "\<forall>s. con s = None"
  shows "\<exists>new E. process_loop con valid net total_urls index urls results w
                   = (None, results @ new, w @ E)
           \<and> map url_of new = map Some (normalized valid urls)
           \<and> ((\<forall>u\<in>set urls. \<exists>n. validate_and_format_url valid u = Inr n)
                \<and> index + length urls = Suc total_urls \<longrightarrow>
               filter is_pace E =
                 intersperse (Sleep RATE_LIMIT_DELAY)
                   (map (\<lambda>n. Request n True) (normalized valid urls)))"
proof (induction urls arbitrary: index results w)
  case Nil
  show ?case by (simp add: normalized_Nil)
next
  case (Cons url urls)
  from process_one_quiet [OF assms, of valid net total_urls index url results w]
  obtain new1 E1 where p:
    "process_one con valid net total_urls index url results w = (None, results @ new1, w @ E1)"
    and u1: "map url_of new1 = map Some (normalized valid [url])"
    and e1: "filter is_pace E1 =
               (case validate_and_format_url valid url of
                  Inl e \<Rightarrow> []
                | Inr n \<Rightarrow> Request n True
                           # (if index < total_urls then [Sleep RATE_LIMIT_DELAY] else []))"
    by blast
  from Cons.IH [of "Suc index" "results @ new1" "w @ E1"]
  obtain new2 E2 where l:
    "process_loop con valid net total_urls (Suc index) urls (results @ new1) (w @ E1)
       = (None, (results @ new1) @ new2, (w @ E1) @ E2)"
    and u2: "map url_of new2 = map Some (normalized valid urls)"
    and e2: "(\<forall>u\<in>set urls. \<exists>n. validate_and_format_url valid u = Inr n)
                \<and> Suc index + length urls = Suc total_urls \<longrightarrow>
               filter is_pace E2 =
                 intersperse (Sleep RATE_LIMIT_DELAY)
                   (map (\<lambda>n. Request n True) (normalized valid urls))"
    by blast
  have a: "process_loop con valid net total_urls index (url # urls) results w
             = (None, results @ (new1 @ new2), w @ (E1 @ E2))"
    using p l by simp
  have b: "map url_of (new1 @ new2) = map Some (normalized valid (url # urls))"
    using u1 u2 by (simp add: normalized_Cons normalized_Nil)
  have c: "filter is_pace (E1 @ E2) =
             intersperse (Sleep RATE_LIMIT_DELAY)
               (map (\<lambda>n. Request n True) (normalized valid (url # urls)))"
    if v: "\<forall>u\<in>set (url # urls). \<exists>n. validate_and_format_url valid u = Inr n"
      and i: "index + length (url # urls) = Suc total_urls"
  proof -
    from v obtain n where n: "validate_and_format_url valid url = Inr n" by auto
    have idx: "index < total_urls \<longleftrightarrow> urls \<noteq> []"
      using i by (cases urls) auto
    have nonempty: "normalized valid urls = [] \<longleftrightarrow> urls = []"
    proof (cases urls)
      case Nil
      then show ?thesis by (simp add: normalized_Nil)
    next
      case (Cons a list)
      with v obtain m where "validate_and_format_url valid a = Inr m" by auto
      with Cons show ?thesis by (simp add: normalized_Cons)
    qed
    from v i e2 have "filter is_pace E2 =
        intersperse (Sleep RATE_LIMIT_DELAY) (map (\<lambda>n. Request n True) (normalized valid urls))"
      by simp
    with e1 n idx nonempty show ?thesis
      by (simp add: normalized_Cons normalized_Nil intersperse_Cons)
  qed
  show ?case
  proof (intro exI conjI impI)
    show "process_loop con valid net total_urls index (url # urls) results w
             = (None, results @ (new1 @ new2), w @ (E1 @ E2))"
      by (rule a)
    show "map url_of (new1 @ new2) = map Some (normalized valid (url # urls))"
      by (rule b)
    assume "(\<forall>u\<in>set (url # urls). \<exists>n. validate_and_format_url valid u = Inr n)
              \<and> index + length (url # urls) = Suc total_urls"
    then show "filter is_pace (E1 @ E2) =
             intersperse (Sleep RATE_LIMIT_DELAY)
               (map (\<lambda>n. Request n True) (normalized valid (url # urls)))"
      using c by blast
  qed
qed

lemma filter_sleep_pace: "filter is_sleep (filter is_pace E) = filter is_sleep E"
proof -
  have "is_sleep x \<longrightarrow> is_pace x" for x by (cases x) simp_all
  then show ?thesis by (auto intro: filter_cong)
qed

lemma count_sleep_intersperse:
  "length (filter is_sleep (intersperse (Sleep d) (map (\<lambda>n. Request n True) ns)))
     = length ns - 1"
  by (induction ns rule: induct_list012) simp_all

lemma length_normalized_all_valid:
  "\<forall>u\<in>set urls. \<exists>n. validate_and_format_url valid u = Inr n \<Longrightarrow>
     length (normalized valid urls) = length urls"
  by (induction urls) (auto simp: normalized_Nil normalized_Cons)

text \<open>
  With a console that prints every text, the batch returns the records of the inputs that
  normalise, in input order.
\<close>

lemma process_urls_order_quiet:
  assumes "\<forall>s. con s = None"
  shows "\<exists>rs w'. process_urls con valid net urls w = (Inr rs, w')
           \<and> map url_of rs = map Some (normalized valid urls)"
  using process_loop_quiet [OF assms, of valid net "length urls" 1 urls "[]" w]
  by (auto simp: process_urls_def)

text \<open>
  With a console that prints every text, a non-empty batch of URLs that all normalise has
  one pause of 2 between each two neighbouring fetches and no other pause.
\<close>

lemma delay_between_urls_quiet:
  assumes "\<forall>s. con s = None"
    and "\<forall>u\<in>set urls. \<exists>n. validate_and_format_url valid u = Inr n"
    and "urls \<noteq> []"
  shows "\<exists>E. snd (process_urls con valid net urls w) = w @ E
           \<and> filter is_pace E =
               intersperse (Sleep 2) (map (\<lambda>n. Request n True) (normalized valid urls))
           \<and> Suc (length (filter is_sleep E)) = length urls"
proof -
  from process_loop_quiet [OF assms(1), of valid net "length urls" 1 urls "[]" w] assms(2)
  obtain E where E: "snd (process_urls con valid net urls w) = w @ E"
    "filter is_pace E =
       intersperse (Sleep RATE_LIMIT_DELAY) (map (\<lambda>n. Request n True) (normalized valid urls))"
    by (auto simp: process_urls_def)
  have "length (filter is_sleep E) = length (filter is_sleep (filter is_pace E))"
    by (simp only: filter_sleep_pace)
  also have "\<dots> = length (normalized valid urls) - 1"
    by (simp only: E(2) count_sleep_intersperse)
  also have "\<dots> = length urls - 1"
    by (simp only: length_normalized_all_valid [OF assms(2)])
  finally have "Suc (length (filter is_sleep E)) = length urls"
    using assms(3) by (cases urls) simp_all
  with E show ?thesis
    by (auto simp: RATE_LIMIT_DELAY_def)
qed

text \<open>Unfolding rules for evaluating the program on concrete batches.\<close>

lemmas eval_defs =
  process_urls_def process_one_def except_handler_def validate_and_format_url_def
  startswith_def valid0_def console_ok_def console_rich_def
  get_headers_unfold net_mixed_def net_selfsigned_def net_refuse_def net_example_def
  net_long_def net_wrong_version_def
  console_print_def time_sleep_def build_result_explicit recorded_value_def dict_get_def
  lowered_headers_def error_headers_explicit HEADERS_TO_CHECK_def lower_def lower_char_def
  truncate_value_def MAX_HEADER_LENGTH_def RATE_LIMIT_DELAY_def
  progress_msg_def rate_msg_def error_msg_def ssl_warning_def str_nat.simps

subsection \<open>Truncation\<close>

text \<open>
  C6. A value longer than 80 characters is recorded as its first 80 characters followed by
  \<open>...\<close>; a value of at most 80 characters is recorded unchanged; truncating a value that
  has already been truncated changes nothing.
\<close>

theorem truncate_value_law:
  "(length v > 80 \<longrightarrow> truncate_value v = take 80 v @ ''...'')
   \<and> (length v \<le> 80 \<longrightarrow> truncate_value v = v)
   \<and> truncate_value (truncate_value v) = truncate_value v"
  by (simp add: truncate_value_def MAX_HEADER_LENGTH_def)

theorem truncate_value_law_witness:
  "length (replicate 81 CHR ''a'') > 80
   \<and> truncate_value (replicate 81 CHR ''a'') = replicate 80 CHR ''a'' @ ''...''
   \<and> length ''max-age=63072000'' \<le> 80
   \<and> truncate_value ''max-age=63072000'' = ''max-age=63072000''
   \<and> truncate_value (truncate_value (replicate 81 CHR ''a''))
       = truncate_value (replicate 81 CHR ''a'')"
  using truncate_value_law [of "replicate 81 CHR ''a''"]
    truncate_value_law [of "''max-age=63072000''"]
  by (simp add: truncate_value_def MAX_HEADER_LENGTH_def)

subsection \<open>Normalisation\<close>

text \<open>
  C4. A raw string that already begins with \<open>http://\<close> or \<open>https://\<close> is validated as it
  is and returned unchanged; any other raw string gets exactly \<open>https://\<close> in front and is
  validated in that form. The call fails, with an error carrying the attempted string,
  exactly when the validator rejects the attempted string; a returned URL begins with one
  of the two schemes and is accepted by the validator. With a validator that rejects
  \<open>https://not a url\<close>, the input \<open>not a url\<close> fails.
\<close>

theorem validate_and_format_url_law:
  "(startswith raw ''http://'' \<or> startswith raw ''https://'' \<longrightarrow>
      validate_and_format_url valid raw =
        (if valid raw then Inr raw else Inl (ValueError (''Invalid URL format: '' @ raw))))
   \<and> (\<not> (startswith raw ''http://'' \<or> startswith raw ''https://'') \<longrightarrow>
      validate_and_format_url valid raw =
        (if valid (''https://'' @ raw) then Inr (''https://'' @ raw)
         else Inl (ValueError (''Invalid URL format: https://'' @ raw))))
   \<and> (\<forall>n. validate_and_format_url valid raw = Inr n \<longrightarrow>
         (startswith n ''http://'' \<or> startswith n ''https://'') \<and> valid n)
   \<and> (\<not> valid ''https://not a url'' \<longrightarrow>
      validate_and_format_url valid ''not a url''
        = Inl (ValueError ''Invalid URL format: https://not a url''))"
  by (auto simp add: validate_and_format_url_def startswith_def Let_def split: if_splits)

theorem validate_and_format_url_law_witness:
  "startswith ''http://example.com'' ''http://''
   \<and> validate_and_format_url valid0 ''http://example.com'' = Inr ''http://example.com''
   \<and> \<not> (startswith ''example.com'' ''http://'' \<or> startswith ''example.com'' ''https://'')
   \<and> validate_and_format_url valid0 ''example.com'' = Inr ''https://example.com''
   \<and> \<not> valid0 ''https://not a url''
   \<and> validate_and_format_url valid0 ''not a url''
        = Inl (ValueError ''Invalid URL format: https://not a url'')"
  using validate_and_format_url_law [of "''http://example.com''" valid0]
    validate_and_format_url_law [of "''example.com''" valid0]
  by (simp add: startswith_def valid0_def)

subsection \<open>An exception that leaves the fetcher\<close>

text \<open>
  C1 says that \<open>get_headers\<close> never raises. The program does not meet this. The URL
  \<open>https://example.com/?a=[/x]\<close> is the normal form of \<open>example.com/?a=[/x]\<close>; when the
  verified request for it raises \<open>SSLError\<close>, the warning that interpolates the URL is
  printed in the handler, the console raises \<^verbatim>\<open>MarkupError\<close> on the tag \<open>[/x]\<close>, and the
  exception leaves \<open>get_headers\<close>: no snapshot is returned and the unverified request is
  not sent. (When the warning is printed, \<open>get_headers_quiet\<close> gives the claim: a snapshot
  is returned, and a degraded fetch yields the snapshot of error strings.)
\<close>

theorem get_headers_raises_markup_error:
  "validate_and_format_url valid0 ''example.com/?a=[/x]'' = Inr ''https://example.com/?a=[/x]''
   \<and> net_selfsigned [] ''https://example.com/?a=[/x]'' True
       = Inl (SSLError CertificateVerifyFailed ''certificate verify failed'')
   \<and> get_headers console_rich net_selfsigned ''https://example.com/?a=[/x]'' [] =
       (Inl (MarkupError ''closing tag '[/x]' at position 68 doesn't match any open tag''),
        [Request ''https://example.com/?a=[/x]'' True])"
  by (simp add: eval_defs)

subsection \<open>The unverified retry\<close>

text \<open>
  C2, as amended. Started at trace \<open>w\<close>, \<open>get_headers\<close> first sends the verified request.
  If that raises an exception of class \<open>SSLError\<close>, whatever its cause, and the warning
  \<open>Warning: SSL verification failed for\<close> followed by the URL is printed, the events added
  are the verified request, this warning and the unverified request, in this order; if the
  unverified request then answers, the returned snapshot is the response's header mapping
  with every name lower-cased (a later item wins over an earlier one with the same
  lower-cased name). If the verified request does anything else, answering or raising an
  exception outside class \<open>SSLError\<close>, the only event added is the verified request. In
  every run, an unverified request among the added events means that the verified request
  raised \<open>SSLError\<close> and that the warning was printed before it.
\<close>

theorem unverified_retry_after_ssl_error:
  "(\<forall>c m. net w url True = Inl (SSLError c m)
        \<and> con (''[yellow]Warning: SSL verification failed for '' @ url @ ''[/yellow]'') = None
      \<longrightarrow>
      snd (get_headers con net url w) =
        w @ [Request url True,
             Print (''[yellow]Warning: SSL verification failed for '' @ url @ ''[/yellow]''),
             Request url False]
      \<and> (\<forall>items.
            net (w @ [Request url True,
                      Print (''[yellow]Warning: SSL verification failed for '' @ url
                             @ ''[/yellow]'')]) url False = Inr items
            \<longrightarrow> (\<exists>snap. fst (get_headers con net url w) = Inr snap
                   \<and> map_of snap = map_of (rev (map (\<lambda>(k, v). (lower k, PyStr v)) items))
                   \<and> fst ` set snap = lower ` fst ` set items
                   \<and> distinct (map fst snap))))
   \<and> ((\<forall>c m. net w url True \<noteq> Inl (SSLError c m)) \<longrightarrow>
        snd (get_headers con net url w) = w @ [Request url True])
   \<and> (\<forall>u. Request u False \<in> set (drop (length w) (snd (get_headers con net url w))) \<longrightarrow>
        (\<exists>c m. net w url True = Inl (SSLError c m))
        \<and> drop (length w) (snd (get_headers con net url w)) =
            [Request url True,
             Print (''[yellow]Warning: SSL verification failed for '' @ url @ ''[/yellow]''),
             Request url False])"
proof (intro conjI allI impI)
  fix c m
  assume a: "net w url True = Inl (SSLError c m)
        \<and> con (''[yellow]Warning: SSL verification failed for '' @ url @ ''[/yellow]'') = None"
  then show "snd (get_headers con net url w) =
        w @ [Request url True,
             Print (''[yellow]Warning: SSL verification failed for '' @ url @ ''[/yellow]''),
             Request url False]"
    by (simp add: get_headers_unfold ssl_warning_def split: sum.splits)
  fix items
  assume "net (w @ [Request url True,
                      Print (''[yellow]Warning: SSL verification failed for '' @ url
                             @ ''[/yellow]'')]) url False = Inr items"
  with a have "fst (get_headers con net url w) = Inr (lowered_headers items)"
    by (simp add: get_headers_unfold ssl_warning_def)
  then show "\<exists>snap. fst (get_headers con net url w) = Inr snap
                   \<and> map_of snap = map_of (rev (map (\<lambda>(k, v). (lower k, PyStr v)) items))
                   \<and> fst ` set snap = lower ` fst ` set items
                   \<and> distinct (map fst snap)"
    by (simp add: map_of_lowered_headers keys_lowered_headers distinct_lowered_headers)
next
  assume "\<forall>c m. net w url True \<noteq> Inl (SSLError c m)"
  then show "snd (get_headers con net url w) = w @ [Request url True]"
    by (auto simp: get_headers_unfold split: sum.splits exn.splits)
next
  fix u
  assume r: "Request u False \<in> set (drop (length w) (snd (get_headers con net url w)))"
  then show "\<exists>c m. net w url True = Inl (SSLError c m)"
    by (auto simp: get_headers_unfold split: sum.splits exn.splits option.splits)
  from r show "drop (length w) (snd (get_headers con net url w)) =
            [Request url True,
             Print (''[yellow]Warning: SSL verification failed for '' @ url @ ''[/yellow]''),
             Request url False]"
    by (auto simp: get_headers_unfold ssl_warning_def
        split: sum.splits exn.splits option.splits)
qed

theorem unverified_retry_after_ssl_error_witness:
  "net_selfsigned [] ''https://self-signed.example'' True
     = Inl (SSLError CertificateVerifyFailed ''certificate verify failed'')
   \<and> console_ok ''[yellow]Warning: SSL verification failed for https://self-signed.example[/yellow]''
       = None
   \<and> get_headers console_ok net_selfsigned ''https://self-signed.example'' [] =
       (Inr [(''x-frame-options'', PyStr ''DENY'')],
        [Request ''https://self-signed.example'' True,
         Print ''[yellow]Warning: SSL verification failed for https://self-signed.example[/yellow]'',
         Request ''https://self-signed.example'' False])
   \<and> net_refuse [] ''https://example.com'' True = Inl (OtherException ''Connection refused'')
   \<and> snd (get_headers console_ok net_refuse ''https://example.com'' [])
       = [Request ''https://example.com'' True]"
  using unverified_retry_after_ssl_error [of net_selfsigned "[]" "''https://self-signed.example''" console_ok]
    unverified_retry_after_ssl_error [of net_refuse "[]" "''https://example.com''" console_ok]
  by (simp add: eval_defs)

text \<open>
  The claim C2 as first stated lets only a certificate-trust failure start the unverified
  attempt. The handler catches the whole class \<open>SSLError\<close>: a verified request that fails
  with a protocol error of the TLS layer, not a failure to verify the certificate, is
  followed by the warning and the unverified request all the same.
\<close>

theorem unverified_retry_counterexample:
  "net_wrong_version [] ''https://example.com'' True
     = Inl (SSLError OtherSSLFailure ''[SSL: WRONG_VERSION_NUMBER] wrong version number'')
   \<and> snd (get_headers console_ok net_wrong_version ''https://example.com'' []) =
       [Request ''https://example.com'' True,
        Print ''[yellow]Warning: SSL verification failed for https://example.com[/yellow]'',
        Request ''https://example.com'' False]"
  by (simp add: eval_defs)

subsection \<open>Tracked headers of a successful fetch\<close>

text \<open>
  C5. When the raw URL normalises to \<open>url\<close>, the progress message is printed and the fetch
  succeeds with the response items \<open>items\<close>, the pass of the batch loop appends one record
  with the fields \<open>URL\<close> and the four tracked names. For each tracked name \<open>h\<close>: if some
  response header name equals \<open>h\<close> up to case, the field \<open>h\<close> holds the truncated value
  of the last such header; if none does, it holds \<open>Missing\<close>. For the input \<open>example.com\<close>
  and a response whose only tracked header is
  \<open>Strict-Transport-Security: max-age=63072000\<close>, the batch yields the single record of the
  specification's example.
\<close>

theorem tracked_headers_recorded:
  assumes "validate_and_format_url valid raw = Inr url"
    and "con (progress_msg url index total_urls) = None"
    and "fetch_succeeds con net url (w @ [Print (progress_msg url index total_urls)]) items"
  shows "\<exists>r out w'. process_one con valid net total_urls index raw results w
                       = (out, results @ [r], w')
      \<and> map fst r = ''URL'' # HEADERS_TO_CHECK
      \<and> map_of r ''URL'' = Some url
      \<and> (\<forall>h\<in>set HEADERS_TO_CHECK.
            map_of r h =
              Some (case filter (\<lambda>(k, v). lower k = lower h) items of
                      [] \<Rightarrow> ''Missing''
                    | kvs \<Rightarrow> truncate_value (snd (last kvs))))"
proof -
  let ?r = "build_result url (lowered_headers items)"
  from process_one_success [OF assms, of results]
  obtain out w' where
    p: "process_one con valid net total_urls index raw results w = (out, results @ [?r], w')"
    by blast
  have f: "\<forall>h\<in>set HEADERS_TO_CHECK.
      map_of ?r h =
        Some (case filter (\<lambda>(k, v). lower k = lower h) items of
                [] \<Rightarrow> ''Missing''
              | kvs \<Rightarrow> truncate_value (snd (last kvs)))"
    by (simp add: map_of_build_result recorded_value_lowered_headers lower_tracked)
  have u: "map_of ?r ''URL'' = Some url"
    by (simp add: build_result_explicit)
  show ?thesis
  proof (intro exI conjI)
    show "process_one con valid net total_urls index raw results w = (out, results @ [?r], w')"
      by (rule p)
    show "map fst ?r = ''URL'' # HEADERS_TO_CHECK"
      by (rule keys_build_result)
    show "map_of ?r ''URL'' = Some url"
      by (rule u)
    show "\<forall>h\<in>set HEADERS_TO_CHECK.
      map_of ?r h =
        Some (case filter (\<lambda>(k, v). lower k = lower h) items of
                [] \<Rightarrow> ''Missing''
              | kvs \<Rightarrow> truncate_value (snd (last kvs)))"
      by (rule f)
  qed
qed

theorem tracked_headers_recorded_witness:
  "validate_and_format_url valid0 ''example.com'' = Inr ''https://example.com''
   \<and> console_ok (progress_msg ''https://example.com'' 1 1) = None
   \<and> fetch_succeeds console_ok net_example ''https://example.com''
        ([] @ [Print (progress_msg ''https://example.com'' 1 1)])
        [(''Content-Type'', ''text/html''),
         (''Strict-Transport-Security'', ''max-age=63072000'')]
   \<and> fst (process_urls console_ok valid0 net_example [''example.com''] []) =
       Inr [[(''URL'', ''https://example.com''),
             (''content-security-policy'', ''Missing''),
             (''x-frame-options'', ''Missing''),
             (''strict-transport-security'', ''max-age=63072000''),
             (''referrer-policy'', ''Missing'')]]"
  using tracked_headers_recorded [of valid0 "''example.com''" "''https://example.com''"
      console_ok 1 1 net_example "[]"
      "[(''Content-Type'', ''text/html''), (''Strict-Transport-Security'', ''max-age=63072000'')]"
      "[]"]
  by (simp add: fetch_succeeds_def eval_defs)

subsection \<open>Order and skipping\<close>

text \<open>
  C3 says that a URL that fails normalisation is skipped and that every URL that normalises
  gets its record. The program does not meet this. In the batch \<open>example.com\<close>,
  \<open>[/x] y\<close>, \<open>example.org\<close> the second input fails normalisation; the handler prints an
  error message that interpolates it, the console raises \<^verbatim>\<open>MarkupError\<close> on the tag
  \<open>[/x]\<close>, and nothing guards the handler: \<open>process_urls\<close> raises after the first URL and
  returns no record, where the claim has the records of the first and the third input.
  (Under a console that prints every text, \<open>process_urls_order_quiet\<close> gives the claim.)
\<close>

theorem process_urls_raises_on_skipped_url:
  "validate_and_format_url valid0 ''example.com'' = Inr ''https://example.com''
   \<and> validate_and_format_url valid0 ''[/x] y''
       = Inl (ValueError ''Invalid URL format: https://[/x] y'')
   \<and> validate_and_format_url valid0 ''example.org'' = Inr ''https://example.org''
   \<and> process_urls console_rich valid0 net_example [''example.com'', ''[/x] y'', ''example.org''] []
      = (Inl (MarkupError ''closing tag '[/x]' at position 22 doesn't match any open tag''),
         [Print ''[cyan]Processing https://example.com (1/3)[/cyan]'',
          Request ''https://example.com'' True,
          Print ''[yellow]Rate limiting: waiting 2 seconds...[/yellow]'',
          Sleep 2])"
  by (simp add: eval_defs)

subsection \<open>Pacing\<close>

text \<open>
  C7 says that a batch of N > 1 valid URLs has exactly N - 1 pauses. The program does not
  meet this. Both inputs of the batch \<open>example.com/?a=[/x]\<close>, \<open>example.com\<close> normalise.
  The progress message of the first raises \<^verbatim>\<open>MarkupError\<close> on the tag \<open>[/x]\<close>; the handler's
  error message interpolates the same URL and raises again, which ends \<open>process_urls\<close>
  with an empty trace: no pause, where the claim has one. (Under a console that prints
  every text, \<open>delay_between_urls_quiet\<close> gives the claim.)
\<close>

theorem process_urls_raises_before_first_delay:
  "validate_and_format_url valid0 ''example.com/?a=[/x]'' = Inr ''https://example.com/?a=[/x]''
   \<and> validate_and_format_url valid0 ''example.com'' = Inr ''https://example.com''
   \<and> process_urls console_rich valid0 net_example [''example.com/?a=[/x]'', ''example.com''] []
      = (Inl (MarkupError ''closing tag '[/x]' at position 45 doesn't match any open tag''), [])"
  by (simp add: eval_defs)

subsection \<open>Shape of a record\<close>

text \<open>
  C8. Every record returned by \<open>process_urls\<close>, for every console, every validator and
  every behaviour of the network, has exactly five fields with distinct names: \<open>URL\<close> and
  the four tracked header names \<open>content-security-policy\<close>, \<open>x-frame-options\<close>,
  \<open>strict-transport-security\<close>, \<open>referrer-policy\<close>.
\<close>

theorem record_fields_fixed:
  "\<forall>rs. fst (process_urls con valid net urls w) = Inr rs \<longrightarrow>
     (\<forall>r\<in>set rs. map fst r = ''URL'' # HEADERS_TO_CHECK \<and> distinct (map fst r) \<and> length r = 5)"
proof (intro allI impI ballI)
  fix rs r
  assume "fst (process_urls con valid net urls w) = Inr rs" and r: "r \<in> set rs"
  then have "process_urls con valid net urls w = (Inr rs, snd (process_urls con valid net urls w))"
    by (cases "process_urls con valid net urls w") simp
  from process_urls_records [OF this] r
  obtain u hs where "r = build_result u hs" by blast
  then show "map fst r = ''URL'' # HEADERS_TO_CHECK \<and> distinct (map fst r) \<and> length r = 5"
    by (simp add: build_result_explicit HEADERS_TO_CHECK_def)
qed

theorem record_fields_fixed_witness:
  "map_sum id (map (map fst)) (fst (process_urls console_ok valid0 net_mixed
      [''example.com'', ''https://self-signed.example'', ''https://down.example''] []))
     = Inr [[''URL'', ''content-security-policy'', ''x-frame-options'',
             ''strict-transport-security'', ''referrer-policy''],
            [''URL'', ''content-security-policy'', ''x-frame-options'',
             ''strict-transport-security'', ''referrer-policy''],
            [''URL'', ''content-security-policy'', ''x-frame-options'',
             ''strict-transport-security'', ''referrer-policy'']]"
  using record_fields_fixed [of console_ok valid0 net_mixed
      "[''example.com'', ''https://self-signed.example'', ''https://down.example'']" "[]"]
  by (simp add: eval_defs)

subsection \<open>Length of a recorded field\<close>

text \<open>
  C10. In every record returned by \<open>process_urls\<close>, every tracked-header field is present
  and holds a string of at most 83 characters.
\<close>

theorem record_fields_bounded:
  "\<forall>rs. fst (process_urls con valid net urls w) = Inr rs \<longrightarrow>
     (\<forall>r\<in>set rs. \<forall>h\<in>set HEADERS_TO_CHECK. \<exists>v. map_of r h = Some v \<and> length v \<le> 83)"
proof (intro allI impI ballI)
  fix rs r h
  assume "fst (process_urls con valid net urls w) = Inr rs" and r: "r \<in> set rs"
    and h: "h \<in> set HEADERS_TO_CHECK"
  then have "process_urls con valid net urls w = (Inr rs, snd (process_urls con valid net urls w))"
    by (cases "process_urls con valid net urls w") simp
  from process_urls_records [OF this] r
  obtain u hs where "r = build_result u hs" by blast
  then show "\<exists>v. map_of r h = Some v \<and> length v \<le> 83"
    using h by (simp add: map_of_build_result length_recorded_value)
qed

theorem record_fields_bounded_witness:
  "map_sum id (map (\<lambda>r. map (\<lambda>h. map_option length (map_of r h)) HEADERS_TO_CHECK))
     (fst (process_urls console_ok valid0 net_long [''example.com''] []))
     = Inr [[Some 83, Some 7, Some 7, Some 7]]"
  using record_fields_bounded [of console_ok valid0 net_long "[''example.com'']" "[]"]
  by (simp add: eval_defs)

subsection \<open>The progress message\<close>

text \<open>
  C9, as amended. Let the loop reach the raw URL \<open>u\<close> at position \<open>length xs + 1\<close> of the
  batch \<open>xs @ u # ys\<close> with trace \<open>w1\<close>; the pass for \<open>u\<close> runs with this position and the
  batch size. If \<open>u\<close> normalises to \<open>n\<close> and the progress message is printed, the events of
  the pass begin with the message \<open>Processing n (i/N)\<close>, which names the normalised URL. If
  normalisation of \<open>u\<close> fails, no event of the pass is a progress message.
\<close>

theorem progress_after_normalisation:
  assumes "process_loop con valid net (length (xs @ u # ys)) 1 xs [] w = (None, results1, w1)"
  shows "process_loop con valid net (length (xs @ u # ys)) 1 (xs @ u # ys) [] w =
           (case process_one con valid net (length (xs @ u # ys)) (Suc (length xs)) u results1 w1 of
              (Some e, results2, w2) \<Rightarrow> (Some e, results2, w2)
            | (None, results2, w2) \<Rightarrow>
                process_loop con valid net (length (xs @ u # ys)) (Suc (Suc (length xs))) ys
                  results2 w2)
       \<and> (\<forall>n. validate_and_format_url valid u = Inr n
               \<and> con (''[cyan]Processing '' @ n @ '' ('' @ str_nat (Suc (length xs)) @ ''/''
                       @ str_nat (length (xs @ u # ys)) @ '')[/cyan]'') = None
             \<longrightarrow>
             (\<exists>E. snd (snd (process_one con valid net (length (xs @ u # ys)) (Suc (length xs))
                               u results1 w1)) =
                    w1 @ Print (''[cyan]Processing '' @ n @ '' ('' @ str_nat (Suc (length xs))
                                @ ''/'' @ str_nat (length (xs @ u # ys)) @ '')[/cyan]'') # E))
       \<and> (\<forall>e. validate_and_format_url valid u = Inl e \<longrightarrow>
             (\<forall>s. Print (''[cyan]Processing '' @ s)
                    \<notin> set (drop (length w1)
                         (snd (snd (process_one con valid net (length (xs @ u # ys))
                                      (Suc (length xs)) u results1 w1))))))"
proof (intro conjI allI impI)
  show "process_loop con valid net (length (xs @ u # ys)) 1 (xs @ u # ys) [] w =
           (case process_one con valid net (length (xs @ u # ys)) (Suc (length xs)) u results1 w1 of
              (Some e, results2, w2) \<Rightarrow> (Some e, results2, w2)
            | (None, results2, w2) \<Rightarrow>
                process_loop con valid net (length (xs @ u # ys)) (Suc (Suc (length xs))) ys
                  results2 w2)"
    using assms by (rule process_loop_step)
next
  fix n
  let ?N = "length (xs @ u # ys)"
  let ?p = "''[cyan]Processing '' @ n @ '' ('' @ str_nat (Suc (length xs)) @ ''/''
              @ str_nat ?N @ '')[/cyan]''"
  assume a: "validate_and_format_url valid u = Inr n \<and> con ?p = None"
  obtain E where "snd (get_headers con net n (w1 @ [Print ?p])) = (w1 @ [Print ?p]) @ Request n True # E"
    using get_headers_trace [of con net n "w1 @ [Print ?p]"] by blast
  then have "\<exists>E'. snd (snd (process_one con valid net ?N (Suc (length xs)) u results1 w1)) =
      w1 @ Print ?p # E'"
    using a
    by (auto simp: process_one_def progress_msg_def console_print_def except_handler_cases
        time_sleep_def Let_def split: prod.splits sum.splits option.splits)
  then show "\<exists>E. snd (snd (process_one con valid net ?N (Suc (length xs)) u results1 w1)) =
      w1 @ Print ?p # E" .
next
  fix e s
  assume e: "validate_and_format_url valid u = Inl e"
  show "Print (''[cyan]Processing '' @ s)
          \<notin> set (drop (length w1)
               (snd (snd (process_one con valid net (length (xs @ u # ys))
                            (Suc (length xs)) u results1 w1))))"
    by (simp add: process_one_invalid [OF e] except_handler_cases error_msg_def
        split: option.splits)
qed

theorem progress_after_normalisation_witness:
  "process_loop console_ok valid0 net_example (length ([''not a url''] @ ''example.com'' # [])) 1
        [''not a url''] [] []
     = (None, [],
        [Print ''[red]Error processing not a url: Invalid URL format: https://not a url[/red]''])
   \<and> validate_and_format_url valid0 ''example.com'' = Inr ''https://example.com''
   \<and> console_ok ''[cyan]Processing https://example.com (2/2)[/cyan]'' = None
   \<and> snd (snd (process_one console_ok valid0 net_example 2 2 ''example.com'' []
        [Print ''[red]Error processing not a url: Invalid URL format: https://not a url[/red]'']))
     = [Print ''[red]Error processing not a url: Invalid URL format: https://not a url[/red]'',
        Print ''[cyan]Processing https://example.com (2/2)[/cyan]'',
        Request ''https://example.com'' True]
   \<and> process_loop console_ok valid0 net_example (length ([] @ ''not a url'' # [''example.com'']))
        1 [] [] [] = (None, [], [])
   \<and> validate_and_format_url valid0 ''not a url''
        = Inl (ValueError ''Invalid URL format: https://not a url'')
   \<and> snd (snd (process_one console_ok valid0 net_example 2 1 ''not a url'' [] []))
     = [Print ''[red]Error processing not a url: Invalid URL format: https://not a url[/red]'']"
  using progress_after_normalisation [of console_ok valid0 net_example "[''not a url'']"
      "''example.com''" "[]" "[]" "[]"
      "[Print ''[red]Error processing not a url: Invalid URL format: https://not a url[/red]'']"]
    progress_after_normalisation [of console_ok valid0 net_example "[]" "''not a url''"
      "[''example.com'']" "[]" "[]" "[]"]
  by (simp add: eval_defs)

text \<open>
  The claim C9 as first stated has the progress message printed before normalisation and
  naming the raw input. The program differs on both counts: for the input \<open>not a url\<close> the
  whole trace is the error message, and for the input \<open>example.com\<close> the progress message
  names \<open>https://example.com\<close>; no progress message naming the raw input is printed in
  either run.
\<close>

theorem progress_first_counterexample:
  "snd (process_urls console_ok valid0 net_example [''not a url''] [])
     = [Print ''[red]Error processing not a url: Invalid URL format: https://not a url[/red]'']
   \<and> Print ''[cyan]Processing not a url (1/1)[/cyan]''
        \<notin> set (snd (process_urls console_ok valid0 net_example [''not a url''] []))
   \<and> snd (process_urls console_ok valid0 net_example [''example.com''] [])
     = [Print ''[cyan]Processing https://example.com (1/1)[/cyan]'',
        Request ''https://example.com'' True]
   \<and> Print ''[cyan]Processing example.com (1/1)[/cyan]''
        \<notin> set (snd (process_urls console_ok valid0 net_example [''example.com''] []))"
  by (simp add: eval_defs)

end
